theory Spec2Isabelle
  imports Complex_Main "HOL-Library.AList"
begin

section \<open>Shared household expenses: aggregation and settlement (app.py)\<close>

text \<open>
  The two report endpoints of \<^verbatim>\<open>app.py\<close>, \<^verbatim>\<open>split_expense\<close> and
  \<^verbatim>\<open>weekly_report\<close>, are embedded as functions of the records the two database
  queries return (the roster \<^verbatim>\<open>Roommate.objects()\<close> and the expenses of the week).
  Request parsing, the date filter of the query and JSON serialisation are not modelled.

  Amounts are rational numbers: the arithmetic of the model is exact, where Python
  computes with its \<^verbatim>\<open>int\<close> and \<^verbatim>\<open>float\<close>. Every concrete input used below has
  costs and shares that binary floating point represents exactly. Python's sums are
  exact as well when the costs are of type \<^verbatim>\<open>int\<close>; with \<^verbatim>\<open>float\<close> costs two sums
  of the same numbers taken in different orders may differ in the last bit, so a
  statement that equates two such sums is made for integer costs only.
\<close>

subsection \<open>Python dictionaries, in insertion order\<close>

datatype error = KeyError | ZeroDivisionError

type_synonym ('k, 'v) dict = "('k \<times> 'v) list"

text \<open>\<^verbatim>\<open>k in d\<close>\<close>

definition dict_has :: "('k, 'v) dict \<Rightarrow> 'k \<Rightarrow> bool" where
  "dict_has d k = (k \<in> set (map fst d))"

text \<open>\<^verbatim>\<open>d[k] = v\<close>: an existing key keeps its place, a new key goes to the end.\<close>

fun dict_set :: "('k, 'v) dict \<Rightarrow> 'k \<Rightarrow> 'v \<Rightarrow> ('k, 'v) dict" where
  "dict_set [] k v = [(k, v)]"
| "dict_set ((k', v') # d) k v =
     (if k' = k then (k', v) # d else (k', v') # dict_set d k v)"

text \<open>\<^verbatim>\<open>d[k]\<close>, which raises on a missing key.\<close>

definition dict_get :: "('k, 'v) dict \<Rightarrow> 'k \<Rightarrow> error + 'v" where
  "dict_get d k = (case map_of d k of None \<Rightarrow> Inl KeyError | Some v \<Rightarrow> Inr v)"

text \<open>\<^verbatim>\<open>d.get(k, v0)\<close>; also the value the iteration \<^verbatim>\<open>d.items()\<close> yields at key \<open>k\<close>.\<close>

definition dict_get_or :: "('k, 'v) dict \<Rightarrow> 'k \<Rightarrow> 'v \<Rightarrow> 'v" where
  "dict_get_or d k v0 = (case map_of d k of None \<Rightarrow> v0 | Some v \<Rightarrow> v)"

subsection \<open>Documents\<close>

text \<open>
  \<open>rid\<close> is \<^verbatim>\<open>str(roommate.id)\<close>. The fields \<^verbatim>\<open>email\<close>, \<^verbatim>\<open>password\<close>,
  \<^verbatim>\<open>phone\<close>, \<^verbatim>\<open>date\<close> and \<^verbatim>\<open>meal_type\<close> are read by neither endpoint after the
  query. An element of \<^verbatim>\<open>Expense.items\<close> is a dictionary with the keys
  \<^verbatim>\<open>'item'\<close> and \<^verbatim>\<open>'cost'\<close>.
\<close>

record named =
  name :: string

record roommate = named +
  rid :: string

record expense_item =
  item :: string
  cost :: rat

record expense =
  items :: "expense_item list"
  purchased_by :: roommate
  consumed_by :: "roommate list"

text \<open>\<^verbatim>\<open>sum(item['cost'] for item in expense.items)\<close>\<close>

definition sum_cost :: "expense_item list \<Rightarrow> rat" where
  "sum_cost its = sum_list (map cost its)"

subsection \<open>\<^verbatim>\<open>split_expense\<close>\<close>

record split_entry = named +
  amount :: rat

text \<open>The inner loop over \<^verbatim>\<open>expense.consumed_by\<close> (lines 183-184).\<close>

fun add_split ::
  "rat \<Rightarrow> roommate list \<Rightarrow> (string, split_entry) dict \<Rightarrow> error + (string, split_entry) dict"
where
  "add_split split_amount [] roommate_expenses = Inr roommate_expenses"
| "add_split split_amount (r # rs) roommate_expenses =
     (case dict_get roommate_expenses (rid r) of
        Inl e \<Rightarrow> Inl e
      | Inr en \<Rightarrow>
          add_split split_amount rs
            (dict_set roommate_expenses (rid r) (en\<lparr>amount := amount en + split_amount\<rparr>)))"

text \<open>The loop over the expenses (lines 179-184); the division raises on an empty group.\<close>

fun split_loop ::
  "expense list \<Rightarrow> (string, split_entry) dict \<Rightarrow> error + (string, split_entry) dict"
where
  "split_loop [] roommate_expenses = Inr roommate_expenses"
| "split_loop (e # es) roommate_expenses =
     (let total_cost = sum_cost (items e) in
      if length (consumed_by e) = 0 then Inl ZeroDivisionError
      else
        (case add_split (total_cost / of_nat (length (consumed_by e))) (consumed_by e)
                roommate_expenses of
           Inl err \<Rightarrow> Inl err
         | Inr d \<Rightarrow> split_loop es d))"

text \<open>The dictionary comprehension of line 177.\<close>

definition init_roommate_expenses :: "roommate list \<Rightarrow> (string, split_entry) dict" where
  "init_roommate_expenses roommates =
     fold (\<lambda>r d. dict_set d (rid r) \<lparr>name = name r, amount = 0\<rparr>) roommates []"

definition split_expense ::
  "roommate list \<Rightarrow> expense list \<Rightarrow> error + (string, split_entry) dict"
where
  "split_expense roommates expenses = split_loop expenses (init_roommate_expenses roommates)"

subsection \<open>\<^verbatim>\<open>weekly_report\<close>: aggregation\<close>

text \<open>
  A value of the \<^verbatim>\<open>report\<close> dictionary. \<open>entry_items\<close> is its key \<^verbatim>\<open>'items'\<close>;
  \<open>owed_by\<close> and \<open>owes_to\<close> hold the pairs \<^verbatim>\<open>(user, amount)\<close>.
\<close>

record report_entry = named +
  total_amount :: rat
  total_items :: int
  entry_items :: "(string, rat) dict"
  owed_by :: "(string \<times> rat) list"
  owes_to :: "(string \<times> rat) list"

text \<open>One settlement step, as the pair of appends of lines 241-248 records it.\<close>

record transfer =
  creditor :: string
  debtor :: string
  paid :: rat

text \<open>
  The local variables of \<^verbatim>\<open>weekly_report\<close>. \<open>transfers\<close> is not a variable of the
  source: it lists, in the order they happen, the settlement steps the source writes
  into \<open>owed_by\<close> and \<open>owes_to\<close>.
\<close>

record state =
  report :: "(string, report_entry) dict"
  spending :: "(string, rat) dict"
  consumption :: "(string, rat) dict"
  balances :: "(string, rat) dict"
  transfers :: "transfer list"

definition new_entry :: "string \<Rightarrow> report_entry" where
  "new_entry n =
     \<lparr>name = n, total_amount = 0, total_items = 0, entry_items = [], owed_by = [], owes_to = []\<rparr>"

text \<open>
  The body of the loop over the items (lines 223-226). The addition of line 226 is
  exact here; it is Python's when the amounts are integers.
\<close>

definition add_item :: "expense_item \<Rightarrow> report_entry \<Rightarrow> report_entry" where
  "add_item it en =
     (let en1 =
        (if \<not> dict_has (entry_items en) (item it)
         then en\<lparr>entry_items := dict_set (entry_items en) (item it) 0,
                 total_items := total_items en + 1\<rparr>
         else en)
      in en1\<lparr>entry_items :=
               dict_set (entry_items en1) (item it)
                 (dict_get_or (entry_items en1) (item it) 0 + cost it)\<rparr>)"

text \<open>
  The body of the loop over \<^verbatim>\<open>expense.consumed_by\<close> (lines 207-228). It runs only
  for a member of the group, so the divisor \<^verbatim>\<open>len(expense.consumed_by)\<close> is at
  least one here, and every key read has been inserted before it is read. The sums
  of lines 220 and 228 are exact here; that of line 228 is Python's when the costs
  are integers.
\<close>

definition consume :: "expense \<Rightarrow> roommate \<Rightarrow> state \<Rightarrow> state" where
  "consume e r st =
     (let roommate_id = rid r;
          report1 =
            (if \<not> dict_has (report st) roommate_id
             then dict_set (report st) roommate_id (new_entry (name r))
             else report st);
          consumption1 =
            (if \<not> dict_has (consumption st) roommate_id
             then dict_set (consumption st) roommate_id 0
             else consumption st);
          consumption2 =
            dict_set consumption1 roommate_id
              (dict_get_or consumption1 roommate_id 0
                 + sum_cost (items e) / of_nat (length (consumed_by e)));
          en = fold add_item (items e) (dict_get_or report1 roommate_id (new_entry (name r)));
          en' = en\<lparr>total_amount := total_amount en + sum_cost (items e)\<rparr>
      in st\<lparr>report := dict_set report1 roommate_id en', consumption := consumption2\<rparr>)"

text \<open>The body of the loop over the expenses (lines 201-228).\<close>

definition process_expense :: "expense \<Rightarrow> state \<Rightarrow> state" where
  "process_expense e st =
     (let purchaser_id = rid (purchased_by e);
          spending1 =
            (if \<not> dict_has (spending st) purchaser_id
             then dict_set (spending st) purchaser_id 0
             else spending st);
          spending2 =
            dict_set spending1 purchaser_id
              (dict_get_or spending1 purchaser_id 0 + sum_cost (items e))
      in fold (consume e) (consumed_by e) (st\<lparr>spending := spending2\<rparr>))"

definition init_state :: state where
  "init_state = \<lparr>report = [], spending = [], consumption = [], balances = [], transfers = []\<rparr>"

definition aggregate :: "expense list \<Rightarrow> state" where
  "aggregate expenses = fold process_expense expenses init_state"

text \<open>The loop over \<^verbatim>\<open>spending.items()\<close> (lines 230-234).\<close>

fun balances_loop ::
  "(string \<times> rat) list \<Rightarrow> (string, rat) dict \<Rightarrow> (string, rat) dict \<Rightarrow> (string, rat) dict"
where
  "balances_loop [] cons bals = bals"
| "balances_loop ((roommate_id, total_spent) # rest) cons bals =
     (let total_consumed = dict_get_or cons roommate_id 0;
          balance = total_spent - total_consumed
      in balances_loop rest cons (dict_set bals roommate_id balance))"

definition compute_balances :: "state \<Rightarrow> state" where
  "compute_balances st = st\<lparr>balances := balances_loop (spending st) (consumption st) []\<rparr>"

subsection \<open>\<^verbatim>\<open>weekly_report\<close>: settlement\<close>

text \<open>
  The inner loop over \<^verbatim>\<open>balances.items()\<close> (lines 238-252). The loop assigns to
  existing keys only, so the iteration visits the keys the dictionary had at its start
  and reads each value when it reaches it. \<open>balance\<close> is the loop variable of the
  outer loop: the value the creditor had when the outer loop reached it.
\<close>

fun inner_loop :: "string \<Rightarrow> rat \<Rightarrow> string list \<Rightarrow> state \<Rightarrow> error + state" where
  "inner_loop roommate_id balance [] st = Inr st"
| "inner_loop roommate_id balance (other_id # rest) st =
     (let other_balance = dict_get_or (balances st) other_id 0 in
      if other_id \<noteq> roommate_id \<and> other_balance < 0 then
        (let amount = min balance (- other_balance) in
         case dict_get (report st) roommate_id of
           Inl e \<Rightarrow> Inl e
         | Inr cr \<Rightarrow>
        (case dict_get (report st) other_id of
           Inl e \<Rightarrow> Inl e
         | Inr db \<Rightarrow>
           (let report1 =
                  dict_set (report st) roommate_id
                    (cr\<lparr>owed_by := owed_by cr @ [(name db, amount)]\<rparr>);
                report2 =
                  dict_set report1 other_id (db\<lparr>owes_to := owes_to db @ [(name cr, amount)]\<rparr>);
                balances1 =
                  dict_set (balances st) roommate_id
                    (dict_get_or (balances st) roommate_id 0 - amount);
                balances2 =
                  dict_set balances1 other_id (dict_get_or balances1 other_id 0 + amount);
                st' = st\<lparr>report := report2, balances := balances2,
                        transfers := transfers st
                          @ [\<lparr>creditor = roommate_id, debtor = other_id, paid = amount\<rparr>]\<rparr>
            in if dict_get_or balances2 roommate_id 0 = 0 then Inr st'
               else inner_loop roommate_id balance rest st')))
      else inner_loop roommate_id balance rest st)"

text \<open>The outer loop over \<^verbatim>\<open>balances.items()\<close> (lines 236-252).\<close>

fun outer_loop :: "string list \<Rightarrow> state \<Rightarrow> error + state" where
  "outer_loop [] st = Inr st"
| "outer_loop (roommate_id # rest) st =
     (let balance = dict_get_or (balances st) roommate_id 0 in
      if balance > 0 then
        (case inner_loop roommate_id balance (map fst (balances st)) st of
           Inl e \<Rightarrow> Inl e
         | Inr st' \<Rightarrow> outer_loop rest st')
      else outer_loop rest st)"

definition settle :: "state \<Rightarrow> error + state" where
  "settle st = outer_loop (map fst (balances st)) st"

text \<open>The endpoint: the values of \<^verbatim>\<open>report\<close>, in insertion order.\<close>

definition weekly_report :: "expense list \<Rightarrow> error + report_entry list" where
  "weekly_report expenses =
     (case settle (compute_balances (aggregate expenses)) of
        Inl e \<Rightarrow> Inl e
      | Inr st \<Rightarrow> Inr (map snd (report st)))"

subsection \<open>Replaying transfers, and the weeks used as concrete inputs\<close>

text \<open>
  Replaying a transfer sequence against a balance map: each transfer's amount is
  subtracted from the creditor's balance and added to the debtor's.
\<close>

fun replay :: "transfer list \<Rightarrow> (string, rat) dict \<Rightarrow> (string, rat) dict" where
  "replay [] bals = bals"
| "replay (t # ts) bals =
     (let bals1 = dict_set bals (creditor t) (dict_get_or bals (creditor t) 0 - paid t);
          bals2 = dict_set bals1 (debtor t) (dict_get_or bals1 (debtor t) 0 + paid t)
      in replay ts bals2)"

definition ann :: roommate where "ann = \<lparr>name = ''Ann'', rid = ''r1''\<rparr>"
definition bob :: roommate where "bob = \<lparr>name = ''Bob'', rid = ''r2''\<rparr>"
definition cat :: roommate where "cat = \<lparr>name = ''Cat'', rid = ''r3''\<rparr>"
definition dan :: roommate where "dan = \<lparr>name = ''Dan'', rid = ''r4''\<rparr>"

text \<open>Ann buys meat and rice for 30; Ann, Bob and Cat eat.\<close>

definition shared_meal :: expense where
  "shared_meal =
     \<lparr>items = [\<lparr>item = ''meat'', cost = 20\<rparr>, \<lparr>item = ''rice'', cost = 10\<rparr>],
      purchased_by = ann, consumed_by = [ann, bob, cat]\<rparr>"

text \<open>An expense nobody consumed.\<close>

definition orphan_meal :: expense where
  "orphan_meal = \<lparr>items = [\<lparr>item = ''tea'', cost = 3\<rparr>], purchased_by = ann, consumed_by = []\<rparr>"

text \<open>Ann buys for Ann and Bob; Cat is on the roster and eats nothing.\<close>

definition lunch :: expense where
  "lunch = \<lparr>items = [\<lparr>item = ''dal'', cost = 3\<rparr>], purchased_by = ann, consumed_by = [ann, bob]\<rparr>"

text \<open>
  A week in which all four buy: the balances are Ann 2, Bob -1, Cat -4, Dan 3, in this
  order, and sum to zero.
\<close>

definition busy_week :: "expense list" where
  "busy_week =
     [\<lparr>items = [\<lparr>item = ''fish'', cost = 3\<rparr>], purchased_by = ann, consumed_by = [ann, bob, cat]\<rparr>,
      \<lparr>items = [\<lparr>item = ''milk'', cost = 1\<rparr>], purchased_by = bob, consumed_by = [bob]\<rparr>,
      \<lparr>items = [\<lparr>item = ''milk'', cost = 1\<rparr>], purchased_by = cat, consumed_by = [cat]\<rparr>,
      \<lparr>items = [\<lparr>item = ''eggs'', cost = 6\<rparr>], purchased_by = dan, consumed_by = [cat, dan]\<rparr>]"

text \<open>A week in which Cat eats and never buys: the balances are Ann 4 and Bob -2.\<close>

definition uneven_week :: "expense list" where
  "uneven_week =
     [\<lparr>items = [\<lparr>item = ''fish'', cost = 6\<rparr>], purchased_by = ann, consumed_by = [ann, bob, cat]\<rparr>,
      \<lparr>items = [\<lparr>item = ''milk'', cost = 1\<rparr>], purchased_by = bob, consumed_by = [bob]\<rparr>]"


text \<open>Ann buys for Bob and eats nothing herself: the balances are Ann 10 and Bob -10.\<close>

definition treat :: "expense list" where
  "treat =
     [\<lparr>items = [\<lparr>item = ''cake'', cost = 10\<rparr>], purchased_by = ann, consumed_by = [bob]\<rparr>,
      \<lparr>items = [\<lparr>item = ''milk'', cost = 1\<rparr>], purchased_by = bob, consumed_by = [bob]\<rparr>]"

section \<open>Properties\<close>

subsection \<open>Lemmas about dictionaries\<close>


lemma dict_set_update: "dict_set d k v = AList.update k v d"
  by (induction d) auto

lemma map_of_dict_set: "map_of (dict_set d k v) = (map_of d)(k \<mapsto> v)"
  by (simp add: dict_set_update update_conv')

lemma keys_dict_set:
  "map fst (dict_set d k v) = (if k \<in> fst ` set d then map fst d else map fst d @ [k])"
  by (simp add: dict_set_update update_keys)

lemma distinct_dict_set: "distinct (map fst d) \<Longrightarrow> distinct (map fst (dict_set d k v))"
  by (simp add: dict_set_update distinct_update)

lemma set_dict_set: "set (dict_set d k v) \<subseteq> insert (k, v) (set d)"
  by (induction d) (auto split: if_splits)

lemma keys_set_dict_set: "fst ` set (dict_set d k v) = insert k (fst ` set d)"
  using arg_cong [OF keys_dict_set [of d k v], of set] by (auto simp del: keys_dict_set)

lemma dict_get_Inr: "k \<in> fst ` set d \<Longrightarrow> \<exists>v. dict_get d k = Inr v \<and> (k, v) \<in> set d"
  by (auto simp: dict_get_def split: option.splits dest: map_of_SomeD simp: map_of_eq_None_iff)

lemma dict_get_Inl: "k \<notin> fst ` set d \<Longrightarrow> dict_get d k = Inl KeyError"
  by (auto simp: dict_get_def split: option.splits simp: map_of_eq_None_iff dest: map_of_SomeD)

lemma dict_get_InrD: "dict_get d k = Inr v \<Longrightarrow> map_of d k = Some v"
  by (auto simp: dict_get_def split: option.splits)

lemma sum_dict_set:
  "sum_list (map snd (dict_set d k v)) = sum_list (map snd d) - dict_get_or d k 0 + (v::rat)"
  by (induction d) (auto simp: dict_get_or_def)

subsection \<open>Lemmas about \<^verbatim>\<open>split_expense\<close>\<close>

lemma add_split_keys:
  "add_split a rs d = Inr d' \<Longrightarrow> map fst d' = map fst d"
proof (induction rs arbitrary: d)
  case Nil
  then show ?case by simp
next
  case (Cons r rs)
  from Cons.prems obtain en where g: "dict_get d (rid r) = Inr en"
    and rest: "add_split a rs (dict_set d (rid r) (en\<lparr>amount := amount en + a\<rparr>)) = Inr d'"
    by (auto split: sum.splits)
  from g have "rid r \<in> fst ` set d"
    by (force simp: dict_get_def split: option.splits dest: map_of_SomeD)
  with Cons.IH [OF rest] show ?case by (simp add: keys_dict_set)
qed

lemma add_split_other:
  "add_split a rs d = Inr d' \<Longrightarrow> k \<notin> rid ` set rs \<Longrightarrow> map_of d' k = map_of d k"
proof (induction rs arbitrary: d)
  case Nil
  then show ?case by simp
next
  case (Cons r rs)
  from Cons.prems(1) obtain en where g: "dict_get d (rid r) = Inr en"
    and rest: "add_split a rs (dict_set d (rid r) (en\<lparr>amount := amount en + a\<rparr>)) = Inr d'"
    by (auto split: sum.splits)
  from Cons.prems(2) have "k \<noteq> rid r" "k \<notin> rid ` set rs" by auto
  with Cons.IH [OF rest] show ?case by (simp add: map_of_dict_set)
qed

lemma add_split_total:
  "rid ` set rs \<subseteq> fst ` set d \<Longrightarrow> \<exists>d'. add_split a rs d = Inr d'"
proof (induction rs arbitrary: d)
  case Nil
  then show ?case by simp
next
  case (Cons r rs)
  then have "rid r \<in> fst ` set d" by auto
  from dict_get_Inr [OF this] obtain en where g: "dict_get d (rid r) = Inr en" by blast
  have "rid ` set rs \<subseteq> fst ` set (dict_set d (rid r) (en\<lparr>amount := amount en + a\<rparr>))"
    using Cons.prems by (auto simp: keys_set_dict_set)
  from Cons.IH [OF this] g show ?case by simp
qed

lemma split_loop_keys:
  "split_loop es d = Inr d' \<Longrightarrow> map fst d' = map fst d"
proof (induction es arbitrary: d)
  case Nil
  then show ?case by simp
next
  case (Cons e es)
  then show ?case
    by (auto simp: Let_def split: if_splits sum.splits dest: add_split_keys)
qed

lemma split_loop_other:
  "split_loop es d = Inr d' \<Longrightarrow> \<forall>e\<in>set es. k \<notin> rid ` set (consumed_by e) \<Longrightarrow>
   map_of d' k = map_of d k"
proof (induction es arbitrary: d)
  case Nil
  then show ?case by simp
next
  case (Cons e es)
  from Cons.prems(1) obtain d1 where
    a: "add_split (sum_cost (items e) / of_nat (length (consumed_by e))) (consumed_by e) d = Inr d1"
    and r: "split_loop es d1 = Inr d'"
    by (auto simp: Let_def split: if_splits sum.splits)
  from Cons.prems(2) have "k \<notin> rid ` set (consumed_by e)" "\<forall>e\<in>set es. k \<notin> rid ` set (consumed_by e)"
    by auto
  with Cons.IH [OF r] add_split_other [OF a] show ?case by simp
qed

lemma split_loop_total:
  "\<forall>e\<in>set es. consumed_by e \<noteq> [] \<and> rid ` set (consumed_by e) \<subseteq> fst ` set d \<Longrightarrow>
   \<exists>d'. split_loop es d = Inr d'"
proof (induction es arbitrary: d)
  case Nil
  then show ?case by simp
next
  case (Cons e es)
  then have ne: "consumed_by e \<noteq> []" and sub: "rid ` set (consumed_by e) \<subseteq> fst ` set d"
    by auto
  from add_split_total [OF sub] obtain d1 where
    a: "add_split (sum_cost (items e) / of_nat (length (consumed_by e))) (consumed_by e) d = Inr d1"
    by blast
  have "fst ` set d1 = fst ` set d" using add_split_keys [OF a] by (metis set_map)
  with Cons.prems have "\<forall>e\<in>set es. consumed_by e \<noteq> [] \<and> rid ` set (consumed_by e) \<subseteq> fst ` set d1"
    by simp
  from Cons.IH [OF this] a ne show ?case by (simp add: Let_def)
qed

lemma split_loop_empty_group:
  "\<exists>e\<in>set es. consumed_by e = [] \<Longrightarrow> \<exists>err. split_loop es d = Inl err"
proof (induction es arbitrary: d)
  case Nil
  then show ?case by simp
next
  case (Cons e es)
  show ?case
  proof (cases "consumed_by e = []")
    case True
    then show ?thesis by (simp add: Let_def)
  next
    case False
    with Cons.prems have "\<exists>e\<in>set es. consumed_by e = []" by auto
    from Cons.IH [OF this] show ?thesis
      by (auto simp: Let_def split: sum.splits)
  qed
qed

lemma split_loop_empty_group_known:
  "\<exists>e\<in>set es. consumed_by e = [] \<Longrightarrow>
   \<forall>e\<in>set es. rid ` set (consumed_by e) \<subseteq> fst ` set d \<Longrightarrow>
   split_loop es d = Inl ZeroDivisionError"
proof (induction es arbitrary: d)
  case Nil
  then show ?case by simp
next
  case (Cons e es)
  show ?case
  proof (cases "consumed_by e = []")
    case True
    then show ?thesis by (simp add: Let_def)
  next
    case False
    with Cons.prems(1) have ex: "\<exists>e\<in>set es. consumed_by e = []" by auto
    from Cons.prems(2) have sub: "rid ` set (consumed_by e) \<subseteq> fst ` set d" by auto
    from add_split_total [OF sub] obtain d1 where
      a: "add_split (sum_cost (items e) / of_nat (length (consumed_by e))) (consumed_by e) d = Inr d1"
      by blast
    have "fst ` set d1 = fst ` set d" using add_split_keys [OF a] by (metis set_map)
    with Cons.prems(2) have "\<forall>e\<in>set es. rid ` set (consumed_by e) \<subseteq> fst ` set d1" by simp
    from Cons.IH [OF ex this] a False show ?thesis by (simp add: Let_def)
  qed
qed

lemma init_fold_keys:
  "fst ` set (fold (\<lambda>r d. dict_set d (rid r) \<lparr>name = name r, amount = 0\<rparr>) rs d)
     = fst ` set d \<union> rid ` set rs"
  by (induction rs arbitrary: d) (simp_all add: keys_set_dict_set)

lemma init_fold_distinct:
  "distinct (map fst d) \<Longrightarrow>
   distinct (map fst (fold (\<lambda>r d. dict_set d (rid r) \<lparr>name = name r, amount = 0\<rparr>) rs d))"
  by (induction rs arbitrary: d) (auto simp: distinct_dict_set)

lemma init_fold_zero:
  "\<forall>(k, en)\<in>set d. amount en = 0 \<Longrightarrow>
   \<forall>(k, en)\<in>set (fold (\<lambda>r d. dict_set d (rid r) \<lparr>name = name r, amount = 0\<rparr>) rs d). amount en = 0"
proof (induction rs arbitrary: d)
  case Nil
  then show ?case by simp
next
  case (Cons r rs)
  have "\<forall>(k, en)\<in>set (dict_set d (rid r) \<lparr>name = name r, amount = 0\<rparr>). amount en = 0"
    using Cons.prems set_dict_set [of d "rid r" "\<lparr>name = name r, amount = 0\<rparr>"] by auto
  from Cons.IH [OF this] show ?case by simp
qed

lemma init_keys: "fst ` set (init_roommate_expenses rs) = rid ` set rs"
  using init_fold_keys [of rs "[]"] by (simp add: init_roommate_expenses_def)

lemma init_distinct: "distinct (map fst (init_roommate_expenses rs))"
  using init_fold_distinct [of "[]" rs] by (simp add: init_roommate_expenses_def)

lemma init_zero: "(k, en) \<in> set (init_roommate_expenses rs) \<Longrightarrow> amount en = 0"
  using init_fold_zero [of "[]" rs] by (auto simp: init_roommate_expenses_def)

subsection \<open>The roster in the output of \<^verbatim>\<open>split_expense\<close>\<close>

text \<open>
  C9. When every group is non-empty and names roster members only, \<^verbatim>\<open>split_expense\<close>
  returns; and whenever it returns, its output has exactly one entry for each roster
  id, and the amount is zero in the entry of every person who is in no expense's
  consumer group.
\<close>

theorem split_expense_roster:
  "((\<forall>e\<in>set expenses. consumed_by e \<noteq> [] \<and> rid ` set (consumed_by e) \<subseteq> rid ` set roommates)
      \<longrightarrow> (\<exists>out. split_expense roommates expenses = Inr out))
   \<and> (\<forall>out. split_expense roommates expenses = Inr out \<longrightarrow>
         distinct (map fst out) \<and> set (map fst out) = rid ` set roommates
         \<and> (\<forall>k en. (k, en) \<in> set out \<and> (\<forall>e\<in>set expenses. k \<notin> rid ` set (consumed_by e))
               \<longrightarrow> amount en = 0))"
proof (intro conjI impI allI)
  assume "\<forall>e\<in>set expenses. consumed_by e \<noteq> [] \<and> rid ` set (consumed_by e) \<subseteq> rid ` set roommates"
  then show "\<exists>out. split_expense roommates expenses = Inr out"
    unfolding split_expense_def by (intro split_loop_total) (simp add: init_keys)
next
  fix out assume out: "split_expense roommates expenses = Inr out"
  then have keys: "map fst out = map fst (init_roommate_expenses roommates)"
    unfolding split_expense_def by (rule split_loop_keys)
  show "distinct (map fst out)" by (simp add: keys init_distinct)
  show "set (map fst out) = rid ` set roommates" by (simp add: keys init_keys)
  fix k en
  assume h: "(k, en) \<in> set out \<and> (\<forall>e\<in>set expenses. k \<notin> rid ` set (consumed_by e))"
  then have "map_of out k = map_of (init_roommate_expenses roommates) k"
    using out unfolding split_expense_def by (intro split_loop_other) auto
  moreover from h have "map_of out k = Some en"
    using \<open>distinct (map fst out)\<close> by simp
  ultimately have "map_of (init_roommate_expenses roommates) k = Some en"
    by simp
  then have "(k, en) \<in> set (init_roommate_expenses roommates)"
    by (rule map_of_SomeD)
  then show "amount en = 0" by (rule init_zero)
qed


theorem split_expense_roster_witness:
  "\<exists>out. split_expense [ann, bob, cat] [lunch] = Inr out
     \<and> out = [(''r1'', \<lparr>name = ''Ann'', amount = 3 / 2\<rparr>),
              (''r2'', \<lparr>name = ''Bob'', amount = 3 / 2\<rparr>),
              (''r3'', \<lparr>name = ''Cat'', amount = 0\<rparr>)]
     \<and> distinct (map fst out) \<and> set (map fst out) = {''r1'', ''r2'', ''r3''}
     \<and> (\<exists>en. (''r3'', en) \<in> set out \<and> amount en = 0)"
proof -
  have ids: "rid ` set [ann, bob, cat] = {''r1'', ''r2'', ''r3''}"
    by (simp add: ann_def bob_def cat_def)
  have groups: "\<forall>e\<in>set [lunch].
      consumed_by e \<noteq> [] \<and> rid ` set (consumed_by e) \<subseteq> rid ` set [ann, bob, cat]"
    by (simp add: lunch_def ann_def bob_def cat_def)
  have absent: "\<forall>e\<in>set [lunch]. ''r3'' \<notin> rid ` set (consumed_by e)"
    by (simp add: lunch_def ann_def bob_def)
  have run: "split_expense [ann, bob, cat] [lunch]
     = Inr [(''r1'', \<lparr>name = ''Ann'', amount = 3 / 2\<rparr>),
            (''r2'', \<lparr>name = ''Bob'', amount = 3 / 2\<rparr>),
            (''r3'', \<lparr>name = ''Cat'', amount = 0\<rparr>)]"
    by code_simp
  from split_expense_roster [of "[lunch]" "[ann, bob, cat]"] groups
  obtain out where out: "split_expense [ann, bob, cat] [lunch] = Inr out"
    by blast
  with split_expense_roster [of "[lunch]" "[ann, bob, cat]"] ids absent
  have "distinct (map fst out)" and "set (map fst out) = {''r1'', ''r2'', ''r3''}"
    and "\<forall>en. (''r3'', en) \<in> set out \<longrightarrow> amount en = 0"
    by auto
  moreover from out run have "out = [(''r1'', \<lparr>name = ''Ann'', amount = 3 / 2\<rparr>),
              (''r2'', \<lparr>name = ''Bob'', amount = 3 / 2\<rparr>),
              (''r3'', \<lparr>name = ''Cat'', amount = 0\<rparr>)]"
    by simp
  ultimately show ?thesis using out by auto
qed

subsection \<open>An expense with an empty consumer group\<close>

lemma dict_get_error: "dict_get d k = Inl e \<Longrightarrow> e = KeyError"
  by (simp add: dict_get_def split: option.splits)

text \<open>The settlement fails at a subscript of \<^verbatim>\<open>report\<close> and nowhere else.\<close>

lemma inner_loop_error:
  "inner_loop roommate_id balance ks st = Inl e \<Longrightarrow> e = KeyError"
proof (induction ks arbitrary: st)
  case Nil
  then show ?case by simp
next
  case (Cons other_id ks)
  show ?case
  proof (cases "other_id \<noteq> roommate_id \<and> dict_get_or (balances st) other_id 0 < 0")
    case False
    with Cons.prems have "inner_loop roommate_id balance ks st = Inl e"
      by (auto simp: Let_def)
    then show ?thesis by (rule Cons.IH)
  next
    case True
    show ?thesis
    proof (cases "dict_get (report st) roommate_id")
      case (Inl e1)
      with True Cons.prems have "e = e1" by (simp add: Let_def)
      with Inl show ?thesis by (simp add: dict_get_error)
    next
      case cr: (Inr cr)
      show ?thesis
      proof (cases "dict_get (report st) other_id")
        case (Inl e2)
        with True cr Cons.prems have "e = e2" by (simp add: Let_def)
        with Inl show ?thesis by (simp add: dict_get_error)
      next
        case db: (Inr db)
        with True cr Cons.prems obtain n where "inner_loop roommate_id balance ks n = Inl e"
          by (auto simp: Let_def split: if_splits)
        then show ?thesis by (rule Cons.IH)
      qed
    qed
  qed
qed

lemma outer_loop_error: "outer_loop ks st = Inl e \<Longrightarrow> e = KeyError"
proof (induction ks arbitrary: st)
  case Nil
  then show ?case by simp
next
  case (Cons roommate_id ks)
  then show ?case
    by (auto simp: Let_def split: if_splits sum.splits dest: inner_loop_error)
qed

lemma weekly_report_error: "weekly_report expenses = Inl e \<Longrightarrow> e = KeyError"
  by (auto simp: weekly_report_def settle_def split: sum.splits dest: outer_loop_error)

lemma process_expense_empty_group:
  "consumed_by e = [] \<Longrightarrow>
   report (process_expense e st) = report st
   \<and> consumption (process_expense e st) = consumption st"
  by (simp add: process_expense_def Let_def)

text \<open>
  C5 fails for \<^verbatim>\<open>weekly_report\<close>: its division (line 220) is inside the loop over
  the group, so an expense nobody consumed raises nothing there. On the week that
  holds this one expense the endpoint returns a report, which is empty.
\<close>

theorem weekly_report_accepts_empty_group:
  "consumed_by orphan_meal = [] \<and> weekly_report [orphan_meal] = Inr []"
  by code_simp

text \<open>
  C5, amended: \<^verbatim>\<open>split_expense\<close> fails on every input with an expense whose group is
  empty, and the failure is the division by zero when all consumers are on the roster
  (a consumer missing from the roster raises \<^verbatim>\<open>KeyError\<close>, possibly earlier).
  \<^verbatim>\<open>weekly_report\<close> has no failure for an empty group: on such an input, as on any
  other, it returns a report or fails with the \<^verbatim>\<open>KeyError\<close> of its settlement, never
  with a division by zero; and an expense whose group is empty leaves \<open>report\<close> and
  \<open>consumption\<close> as they were (it is added to the purchaser's \<open>spending\<close> only).
\<close>

theorem split_expense_empty_group:
  "\<exists>e\<in>set expenses. consumed_by e = [] \<Longrightarrow>
   (\<exists>err. split_expense roommates expenses = Inl err)
   \<and> ((\<forall>e\<in>set expenses. rid ` set (consumed_by e) \<subseteq> rid ` set roommates)
        \<longrightarrow> split_expense roommates expenses = Inl ZeroDivisionError)
   \<and> ((\<exists>rs. weekly_report expenses = Inr rs) \<or> weekly_report expenses = Inl KeyError)
   \<and> (\<forall>e st. consumed_by e = [] \<longrightarrow>
        report (process_expense e st) = report st
        \<and> consumption (process_expense e st) = consumption st)"
proof (intro conjI impI allI)
  assume ex: "\<exists>e\<in>set expenses. consumed_by e = []"
  show "\<exists>err. split_expense roommates expenses = Inl err"
    unfolding split_expense_def using ex by (rule split_loop_empty_group)
  show "(\<exists>rs. weekly_report expenses = Inr rs) \<or> weekly_report expenses = Inl KeyError"
  proof (cases "weekly_report expenses")
    case (Inl e)
    then show ?thesis by (simp add: weekly_report_error)
  next
    case (Inr rs)
    then show ?thesis by simp
  qed
  {
    fix e :: expense and st :: state
    assume "consumed_by e = []"
    then show "report (process_expense e st) = report st"
      and "consumption (process_expense e st) = consumption st"
      by (simp_all add: process_expense_empty_group)
  }
  assume "\<forall>e\<in>set expenses. rid ` set (consumed_by e) \<subseteq> rid ` set roommates"
  then have "\<forall>e\<in>set expenses.
      rid ` set (consumed_by e) \<subseteq> fst ` set (init_roommate_expenses roommates)"
    by (simp add: init_keys)
  with ex show "split_expense roommates expenses = Inl ZeroDivisionError"
    unfolding split_expense_def by (rule split_loop_empty_group_known)
qed

theorem split_expense_empty_group_witness:
  "(\<exists>e\<in>set (orphan_meal # treat). consumed_by e = [])
   \<and> split_expense [ann, bob, cat] (orphan_meal # treat) = Inl ZeroDivisionError
   \<and> weekly_report (orphan_meal # treat) = Inl KeyError
   \<and> report (process_expense orphan_meal init_state) = []
   \<and> consumption (process_expense orphan_meal init_state) = []"
proof -
  have h1: "\<exists>e\<in>set (orphan_meal # treat). consumed_by e = []"
    by (simp add: orphan_meal_def)
  have h2: "\<forall>e\<in>set (orphan_meal # treat).
      rid ` set (consumed_by e) \<subseteq> rid ` set [ann, bob, cat]"
    by (simp add: treat_def orphan_meal_def ann_def bob_def cat_def)
  have h3: "consumed_by orphan_meal = []" by (simp add: orphan_meal_def)
  have h4: "report init_state = []" "consumption init_state = []"
    by (simp_all add: init_state_def)
  have h5: "weekly_report (orphan_meal # treat) = Inl KeyError" by code_simp
  from split_expense_empty_group [OF h1, of "[ann, bob, cat]"] h1 h2 h3 h4 h5
  show ?thesis by auto
qed

subsection \<open>More lemmas about dictionaries\<close>

lemma dict_get_or_cases: "dict_get_or d k v0 = v0 \<or> (k, dict_get_or d k v0) \<in> set d"
  by (auto simp: dict_get_or_def split: option.splits dest: map_of_SomeD)

lemma dict_get_or_present: "k \<in> fst ` set d \<Longrightarrow> (k, dict_get_or d k v0) \<in> set d"
  by (cases "map_of d k") (auto simp: dict_get_or_def map_of_eq_None_iff dest: map_of_SomeD)

lemma length_dict_set:
  "length (dict_set d k v) = (if k \<in> fst ` set d then length d else Suc (length d))"
  by (induction d) (force+)

subsection \<open>Lemmas about the aggregation loop\<close>

lemma add_item_count:
  assumes "total_items en = int (length (entry_items en))"
    and "distinct (map fst (entry_items en))"
  shows "total_items (add_item it en) = int (length (entry_items (add_item it en)))
     \<and> distinct (map fst (entry_items (add_item it en)))"
  using assms
  by (simp add: add_item_def Let_def dict_has_def length_dict_set keys_set_dict_set
      distinct_dict_set)



lemma fold_add_item_count:
  "total_items en = int (length (entry_items en)) \<Longrightarrow> distinct (map fst (entry_items en)) \<Longrightarrow>
   total_items (fold add_item its en) = int (length (entry_items (fold add_item its en)))
     \<and> distinct (map fst (entry_items (fold add_item its en)))"
proof (induction its arbitrary: en)
  case Nil
  then show ?case by simp
next
  case (Cons it its)
  from add_item_count [OF Cons.prems] Cons.IH [of "add_item it en"] show ?case by simp
qed



lemma consume_report:
  assumes inv: "\<forall>(k, en)\<in>set (report st). P en"
    and new: "\<And>n. P (new_entry n)"
    and step: "\<And>(e::expense) en. P en \<Longrightarrow>
      P ((fold add_item (items e) en)
          \<lparr>total_amount := total_amount (fold add_item (items e) en) + sum_cost (items e)\<rparr>)"
  shows "\<forall>(k, en)\<in>set (report (consume e r st)). P en"
proof -
  define report1 where "report1 =
    (if \<not> dict_has (report st) (rid r)
     then dict_set (report st) (rid r) (new_entry (name r)) else report st)"
  define en0 where "en0 = dict_get_or report1 (rid r) (new_entry (name r))"
  define en1 where "en1 = (fold add_item (items e) en0)
          \<lparr>total_amount := total_amount (fold add_item (items e) en0) + sum_cost (items e)\<rparr>"
  have r1: "\<forall>(k, en)\<in>set report1. P en"
    using inv new set_dict_set [of "report st" "rid r" "new_entry (name r)"]
    by (auto simp: report1_def)
  have "P en0"
    using dict_get_or_cases [of report1 "rid r" "new_entry (name r)"] r1 new
    by (auto simp: en0_def)
  then have "P en1" unfolding en1_def by (rule step)
  moreover have "report (consume e r st) = dict_set report1 (rid r) en1"
    by (simp add: consume_def Let_def report1_def en0_def en1_def)
  ultimately show ?thesis
    using r1 set_dict_set [of report1 "rid r" en1] by auto
qed

lemma fold_consume_report:
  assumes new: "\<And>n. P (new_entry n)"
    and step: "\<And>(e::expense) en. P en \<Longrightarrow>
      P ((fold add_item (items e) en)
          \<lparr>total_amount := total_amount (fold add_item (items e) en) + sum_cost (items e)\<rparr>)"
  shows "\<forall>(k, en)\<in>set (report st). P en \<Longrightarrow>
     \<forall>(k, en)\<in>set (report (fold (consume e) rs st)). P en"
proof (induction rs arbitrary: st)
  case Nil
  then show ?case by simp
next
  case (Cons r rs)
  have "\<forall>(k, en)\<in>set (report (consume e r st)). P en"
    using Cons.prems new step by (rule consume_report)
  from Cons.IH [OF this] show ?case by simp
qed

lemma process_expense_report:
  assumes new: "\<And>n. P (new_entry n)"
    and step: "\<And>(e::expense) en. P en \<Longrightarrow>
      P ((fold add_item (items e) en)
          \<lparr>total_amount := total_amount (fold add_item (items e) en) + sum_cost (items e)\<rparr>)"
    and inv: "\<forall>(k, en)\<in>set (report st). P en"
  shows "\<forall>(k, en)\<in>set (report (process_expense e st)). P en"
proof -
  have "\<forall>(k, en)\<in>set (report (st\<lparr>spending := sp\<rparr>)). P en" for sp
    using inv by simp
  from fold_consume_report [where P = P, OF new step this]
  show ?thesis
    unfolding process_expense_def Let_def .
qed

lemma fold_process_expense_report:
  assumes new: "\<And>n. P (new_entry n)"
    and step: "\<And>(e::expense) en. P en \<Longrightarrow>
      P ((fold add_item (items e) en)
          \<lparr>total_amount := total_amount (fold add_item (items e) en) + sum_cost (items e)\<rparr>)"
  shows "\<forall>(k, en)\<in>set (report st). P en \<Longrightarrow>
     \<forall>(k, en)\<in>set (report (fold process_expense es st)). P en"
proof (induction es arbitrary: st)
  case Nil
  then show ?case by simp
next
  case (Cons e es)
  have "\<forall>(k, en)\<in>set (report (process_expense e st)). P en"
    using new step Cons.prems by (rule process_expense_report)
  from Cons.IH [OF this] show ?case by simp
qed

lemma count_step:
  assumes "total_items en = int (card (fst ` set (entry_items en))) \<and> distinct (map fst (entry_items en))"
  shows "total_items ((fold add_item its en)\<lparr>total_amount := a\<rparr>)
       = int (card (fst ` set (entry_items ((fold add_item its en)\<lparr>total_amount := a\<rparr>))))
     \<and> distinct (map fst (entry_items ((fold add_item its en)\<lparr>total_amount := a\<rparr>)))"
proof -
  from assms have "total_items en = int (length (entry_items en))"
    and d: "distinct (map fst (entry_items en))"
    using distinct_card [of "map fst (entry_items en)"] by auto
  from fold_add_item_count [OF this, of its]
  show ?thesis
    using distinct_card [of "map fst (entry_items (fold add_item its en))"] by auto
qed





subsection \<open>Lemmas about the settlement loops\<close>

lemma inner_loop_succeeds:
  "roommate_id \<in> fst ` set (report st) \<Longrightarrow> set ks \<subseteq> fst ` set (report st) \<Longrightarrow>
   fst ` set (balances st) \<subseteq> fst ` set (report st) \<Longrightarrow>
   \<exists>st'. inner_loop roommate_id balance ks st = Inr st'
     \<and> fst ` set (report st') = fst ` set (report st)
     \<and> fst ` set (balances st') \<subseteq> fst ` set (report st)"
proof (induction ks arbitrary: st)
  case Nil
  then show ?case by simp
next
  case (Cons other_id ks)
  from Cons.prems have o: "other_id \<in> fst ` set (report st)" by simp
  from dict_get_Inr [OF Cons.prems(1)] obtain cr where
    cr: "dict_get (report st) roommate_id = Inr cr" by blast
  from dict_get_Inr [OF o] obtain db where
    db: "dict_get (report st) other_id = Inr db" by blast
  show ?case
  proof (cases "other_id \<noteq> roommate_id \<and> dict_get_or (balances st) other_id 0 < 0")
    case False
    with Cons.IH [of st] Cons.prems show ?thesis by (auto simp: Let_def)
  next
    case True
    define amount where "amount = min balance (- dict_get_or (balances st) other_id 0)"
    define report2 where "report2 =
      dict_set (dict_set (report st) roommate_id (cr\<lparr>owed_by := owed_by cr @ [(name db, amount)]\<rparr>))
        other_id (db\<lparr>owes_to := owes_to db @ [(name cr, amount)]\<rparr>)"
    define balances1 where "balances1 =
      dict_set (balances st) roommate_id (dict_get_or (balances st) roommate_id 0 - amount)"
    define balances2 where "balances2 =
      dict_set balances1 other_id (dict_get_or balances1 other_id 0 + amount)"
    define st1 where "st1 = st\<lparr>report := report2, balances := balances2,
        transfers := transfers st
          @ [\<lparr>creditor = roommate_id, debtor = other_id, paid = amount\<rparr>]\<rparr>"
    have step: "inner_loop roommate_id balance (other_id # ks) st =
        (if dict_get_or balances2 roommate_id 0 = 0 then Inr st1
         else inner_loop roommate_id balance ks st1)"
      using True cr db
      by (simp add: Let_def amount_def report2_def balances1_def balances2_def st1_def)
    have rk: "fst ` set (report st1) = fst ` set (report st)"
      using Cons.prems(1) o by (auto simp: st1_def report2_def keys_set_dict_set)
    have bk: "fst ` set (balances st1) \<subseteq> fst ` set (report st)"
      using Cons.prems o
      by (auto simp: st1_def balances2_def balances1_def keys_set_dict_set)
    show ?thesis
    proof (cases "dict_get_or balances2 roommate_id 0 = 0")
      case True
      with step rk bk show ?thesis by simp
    next
      case False
      have "\<exists>st'. inner_loop roommate_id balance ks st1 = Inr st'
         \<and> fst ` set (report st') = fst ` set (report st1)
         \<and> fst ` set (balances st') \<subseteq> fst ` set (report st1)"
        using Cons.prems rk bk by (intro Cons.IH) auto
      with step False rk show ?thesis by simp
    qed
  qed
qed

lemma outer_loop_succeeds:
  "set ks \<subseteq> fst ` set (report st) \<Longrightarrow>
   fst ` set (balances st) \<subseteq> fst ` set (report st) \<Longrightarrow>
   \<exists>st'. outer_loop ks st = Inr st'"
proof (induction ks arbitrary: st)
  case Nil
  then show ?case by simp
next
  case (Cons roommate_id ks)
  show ?case
  proof (cases "dict_get_or (balances st) roommate_id 0 > 0")
    case False
    with Cons.IH [of st] Cons.prems show ?thesis by (simp add: Let_def)
  next
    case True
    have "\<exists>st'. inner_loop roommate_id (dict_get_or (balances st) roommate_id 0)
          (map fst (balances st)) st = Inr st'
       \<and> fst ` set (report st') = fst ` set (report st)
       \<and> fst ` set (balances st') \<subseteq> fst ` set (report st)"
      using Cons.prems by (intro inner_loop_succeeds) auto
    then obtain st1 where
      i: "inner_loop roommate_id (dict_get_or (balances st) roommate_id 0)
          (map fst (balances st)) st = Inr st1"
      and rk: "fst ` set (report st1) = fst ` set (report st)"
      and bk: "fst ` set (balances st1) \<subseteq> fst ` set (report st)"
      by blast
    have "\<exists>st'. outer_loop ks st1 = Inr st'"
      using Cons.prems rk bk by (intro Cons.IH) auto
    with True i show ?thesis by (simp add: Let_def)
  qed
qed

lemma inner_loop_reads:
  "other_id \<noteq> roommate_id \<Longrightarrow> dict_get_or (balances st) other_id 0 < 0 \<Longrightarrow>
   inner_loop roommate_id balance (other_id # ks) st = Inr st' \<Longrightarrow>
   \<exists>cr db. dict_get (report st) roommate_id = Inr cr \<and> dict_get (report st) other_id = Inr db"
  by (cases "dict_get (report st) roommate_id"; cases "dict_get (report st) other_id")
    (simp_all add: Let_def)

lemma inner_loop_same:
  "balances st1 = balances st2 \<Longrightarrow> transfers st1 = transfers st2 \<Longrightarrow>
   inner_loop roommate_id balance ks st1 = Inr st1' \<Longrightarrow>
   inner_loop roommate_id balance ks st2 = Inr st2' \<Longrightarrow>
   balances st1' = balances st2' \<and> transfers st1' = transfers st2'"
proof (induction ks arbitrary: st1 st2)
  case Nil
  then show ?case by simp
next
  case (Cons other_id ks)
  show ?case
  proof (cases "other_id \<noteq> roommate_id \<and> dict_get_or (balances st1) other_id 0 < 0")
    case False
    with Cons.prems have "inner_loop roommate_id balance ks st1 = Inr st1'"
      and "inner_loop roommate_id balance ks st2 = Inr st2'"
      by (auto simp: Let_def)
    with Cons.IH [of st1 st2] Cons.prems(1,2) show ?thesis by simp
  next
    case True
    then have debtor2: "other_id \<noteq> roommate_id \<and> dict_get_or (balances st2) other_id 0 < 0"
      using Cons.prems(1) by simp
    from inner_loop_reads [OF _ _ Cons.prems(3)] True obtain cr1 db1 where
      g1: "dict_get (report st1) roommate_id = Inr cr1" "dict_get (report st1) other_id = Inr db1"
      by blast
    from inner_loop_reads [OF _ _ Cons.prems(4)] debtor2 obtain cr2 db2 where
      g2: "dict_get (report st2) roommate_id = Inr cr2" "dict_get (report st2) other_id = Inr db2"
      by blast
    define amount where "amount = min balance (- dict_get_or (balances st1) other_id 0)"
    define balances1 where "balances1 =
      dict_set (balances st1) roommate_id (dict_get_or (balances st1) roommate_id 0 - amount)"
    define balances2 where "balances2 =
      dict_set balances1 other_id (dict_get_or balances1 other_id 0 + amount)"
    define log where "log = transfers st1
          @ [\<lparr>creditor = roommate_id, debtor = other_id, paid = amount\<rparr>]"
    define n1 where "n1 = st1\<lparr>report :=
        dict_set (dict_set (report st1) roommate_id
            (cr1\<lparr>owed_by := owed_by cr1 @ [(name db1, amount)]\<rparr>))
          other_id (db1\<lparr>owes_to := owes_to db1 @ [(name cr1, amount)]\<rparr>),
        balances := balances2, transfers := log\<rparr>"
    define n2 where "n2 = st2\<lparr>report :=
        dict_set (dict_set (report st2) roommate_id
            (cr2\<lparr>owed_by := owed_by cr2 @ [(name db2, amount)]\<rparr>))
          other_id (db2\<lparr>owes_to := owes_to db2 @ [(name cr2, amount)]\<rparr>),
        balances := balances2, transfers := log\<rparr>"
    have e1: "inner_loop roommate_id balance (other_id # ks) st1 =
        (if dict_get_or balances2 roommate_id 0 = 0 then Inr n1
         else inner_loop roommate_id balance ks n1)"
      using True g1
      by (simp add: Let_def amount_def balances1_def balances2_def log_def n1_def)
    have e2: "inner_loop roommate_id balance (other_id # ks) st2 =
        (if dict_get_or balances2 roommate_id 0 = 0 then Inr n2
         else inner_loop roommate_id balance ks n2)"
      using debtor2 g2 Cons.prems(1,2)
      by (simp add: Let_def amount_def balances1_def balances2_def log_def n2_def)
    have same: "balances n1 = balances n2" "transfers n1 = transfers n2"
      by (simp_all add: n1_def n2_def)
    show ?thesis
    proof (cases "dict_get_or balances2 roommate_id 0 = 0")
      case True
      with e1 e2 Cons.prems(3,4) same show ?thesis by simp
    next
      case False
      with e1 e2 Cons.prems(3,4) have "inner_loop roommate_id balance ks n1 = Inr st1'"
        and "inner_loop roommate_id balance ks n2 = Inr st2'"
        by simp_all
      from Cons.IH [OF same this] show ?thesis .
    qed
  qed
qed

lemma outer_loop_same:
  "balances st1 = balances st2 \<Longrightarrow> transfers st1 = transfers st2 \<Longrightarrow>
   outer_loop ks st1 = Inr st1' \<Longrightarrow> outer_loop ks st2 = Inr st2' \<Longrightarrow>
   balances st1' = balances st2' \<and> transfers st1' = transfers st2'"
proof (induction ks arbitrary: st1 st2)
  case Nil
  then show ?case by simp
next
  case (Cons roommate_id ks)
  show ?case
  proof (cases "dict_get_or (balances st1) roommate_id 0 > 0")
    case False
    with Cons.prems have "outer_loop ks st1 = Inr st1'" and "outer_loop ks st2 = Inr st2'"
      by (auto simp: Let_def)
    with Cons.IH [of st1 st2] Cons.prems(1,2) show ?thesis by simp
  next
    case True
    from Cons.prems(3) True obtain m1 where
      i1: "inner_loop roommate_id (dict_get_or (balances st1) roommate_id 0)
             (map fst (balances st1)) st1 = Inr m1"
      and o1: "outer_loop ks m1 = Inr st1'"
      by (auto simp: Let_def split: sum.splits)
    from Cons.prems(4) True Cons.prems(1) obtain m2 where
      i2: "inner_loop roommate_id (dict_get_or (balances st1) roommate_id 0)
             (map fst (balances st1)) st2 = Inr m2"
      and o2: "outer_loop ks m2 = Inr st2'"
      by (auto simp: Let_def split: sum.splits)
    from inner_loop_same [OF Cons.prems(1,2) i1 i2]
    have "balances m1 = balances m2" and "transfers m1 = transfers m2" by simp_all
    from Cons.IH [OF this o1 o2] show ?thesis .
  qed
qed

text \<open>The settlement writes \<open>owed_by\<close> and \<open>owes_to\<close> and nothing else of an entry.\<close>

lemma inner_loop_report:
  assumes owed: "\<And>(en::report_entry) x. P en \<Longrightarrow> P (en\<lparr>owed_by := x\<rparr>)"
    and owes: "\<And>(en::report_entry) x. P en \<Longrightarrow> P (en\<lparr>owes_to := x\<rparr>)"
  shows "\<forall>(k, en)\<in>set (report st). P en \<Longrightarrow>
    inner_loop roommate_id balance ks st = Inr st' \<Longrightarrow>
    \<forall>(k, en)\<in>set (report st'). P en"
proof (induction ks arbitrary: st)
  case Nil
  then show ?case by simp
next
  case (Cons other_id ks)
  show ?case
  proof (cases "other_id \<noteq> roommate_id \<and> dict_get_or (balances st) other_id 0 < 0")
    case False
    with Cons.prems(2) have "inner_loop roommate_id balance ks st = Inr st'"
      by (auto simp: Let_def)
    with Cons.IH [of st] Cons.prems(1) show ?thesis by simp
  next
    case True
    from inner_loop_reads [OF _ _ Cons.prems(2)] True obtain cr db where
      g: "dict_get (report st) roommate_id = Inr cr" "dict_get (report st) other_id = Inr db"
      by blast
    then have "(roommate_id, cr) \<in> set (report st)" and "(other_id, db) \<in> set (report st)"
      by (auto dest!: dict_get_InrD map_of_SomeD)
    with Cons.prems(1) have pc: "P cr" and pd: "P db" by auto
    define amount where "amount = min balance (- dict_get_or (balances st) other_id 0)"
    define cr' where "cr' = cr\<lparr>owed_by := owed_by cr @ [(name db, amount)]\<rparr>"
    define db' where "db' = db\<lparr>owes_to := owes_to db @ [(name cr, amount)]\<rparr>"
    define balances1 where "balances1 =
      dict_set (balances st) roommate_id (dict_get_or (balances st) roommate_id 0 - amount)"
    define balances2 where "balances2 =
      dict_set balances1 other_id (dict_get_or balances1 other_id 0 + amount)"
    define n where "n = st\<lparr>report := dict_set (dict_set (report st) roommate_id cr') other_id db',
        balances := balances2,
        transfers := transfers st
          @ [\<lparr>creditor = roommate_id, debtor = other_id, paid = amount\<rparr>]\<rparr>"
    have e: "inner_loop roommate_id balance (other_id # ks) st =
        (if dict_get_or balances2 roommate_id 0 = 0 then Inr n
         else inner_loop roommate_id balance ks n)"
      using True g
      by (simp add: Let_def amount_def balances1_def balances2_def n_def cr'_def db'_def)
    have "P cr'" and "P db'"
      unfolding cr'_def db'_def using pc pd by (auto intro: owed owes)
    then have pn: "\<forall>(k, en)\<in>set (report n). P en"
      using Cons.prems(1) set_dict_set [of "report st" roommate_id cr']
        set_dict_set [of "dict_set (report st) roommate_id cr'" other_id db']
      by (auto simp: n_def)
    show ?thesis
    proof (cases "dict_get_or balances2 roommate_id 0 = 0")
      case True
      with e Cons.prems(2) pn show ?thesis by simp
    next
      case False
      with e Cons.prems(2) have "inner_loop roommate_id balance ks n = Inr st'" by simp
      from Cons.IH [OF pn this] show ?thesis .
    qed
  qed
qed

lemma outer_loop_report:
  assumes owed: "\<And>(en::report_entry) x. P en \<Longrightarrow> P (en\<lparr>owed_by := x\<rparr>)"
    and owes: "\<And>(en::report_entry) x. P en \<Longrightarrow> P (en\<lparr>owes_to := x\<rparr>)"
  shows "\<forall>(k, en)\<in>set (report st). P en \<Longrightarrow> outer_loop ks st = Inr st' \<Longrightarrow>
    \<forall>(k, en)\<in>set (report st'). P en"
proof (induction ks arbitrary: st)
  case Nil
  then show ?case by simp
next
  case (Cons roommate_id ks)
  show ?case
  proof (cases "dict_get_or (balances st) roommate_id 0 > 0")
    case False
    with Cons.prems(2) have "outer_loop ks st = Inr st'" by (simp add: Let_def)
    with Cons.IH [of st] Cons.prems(1) show ?thesis by simp
  next
    case True
    with Cons.prems(2) obtain m where
      i: "inner_loop roommate_id (dict_get_or (balances st) roommate_id 0)
             (map fst (balances st)) st = Inr m"
      and o: "outer_loop ks m = Inr st'"
      by (auto simp: Let_def split: sum.splits)
    from inner_loop_report [of P, OF owed owes Cons.prems(1) i]
    have "\<forall>(k, en)\<in>set (report m). P en" .
    from Cons.IH [OF this o] show ?thesis .
  qed
qed

lemma weekly_report_entries:
  assumes owed: "\<And>(en::report_entry) x. P en \<Longrightarrow> P (en\<lparr>owed_by := x\<rparr>)"
    and owes: "\<And>(en::report_entry) x. P en \<Longrightarrow> P (en\<lparr>owes_to := x\<rparr>)"
    and agg: "\<forall>(k, en)\<in>set (report (aggregate expenses)). P en"
    and out: "weekly_report expenses = Inr rs"
  shows "\<forall>en\<in>set rs. P en"
proof -
  from out obtain st' where s: "settle (compute_balances (aggregate expenses)) = Inr st'"
    and rs: "rs = map snd (report st')"
    by (auto simp: weekly_report_def split: sum.splits)
  from agg have "\<forall>(k, en)\<in>set (report (compute_balances (aggregate expenses))). P en"
    by (simp add: compute_balances_def)
  from outer_loop_report [of P, OF owed owes this s [unfolded settle_def]]
  have "\<forall>(k, en)\<in>set (report st'). P en" .
  with rs show ?thesis by auto
qed

subsection \<open>The item counter of a report entry\<close>

text \<open>
  C10. After any sequence of expenses, \<open>total_items\<close> of every entry of the report is
  the number of distinct item names in the entry's \<open>entry_items\<close>, and so it is in
  every record of the report the endpoint returns; and one more expense preserves this
  (together with the keys of \<open>entry_items\<close> being distinct, which an
  insertion-ordered dictionary has) from any state.
\<close>

theorem total_items_counts_item_names:
  "(\<forall>(k, en)\<in>set (report (aggregate expenses)).
      total_items en = int (card (fst ` set (entry_items en))))
   \<and> (\<forall>rs. weekly_report expenses = Inr rs \<longrightarrow>
        (\<forall>en\<in>set rs. total_items en = int (card (fst ` set (entry_items en)))))
   \<and> ((\<forall>(k, en)\<in>set (report st).
         total_items en = int (card (fst ` set (entry_items en)))
         \<and> distinct (map fst (entry_items en)))
      \<longrightarrow> (\<forall>(k, en)\<in>set (report (process_expense e st)).
         total_items en = int (card (fst ` set (entry_items en)))
         \<and> distinct (map fst (entry_items en))))"
proof (intro conjI impI allI)
  define P where "P = (\<lambda>en::report_entry.
     total_items en = int (card (fst ` set (entry_items en)))
     \<and> distinct (map fst (entry_items en)))"
  have new: "\<And>n. P (new_entry n)" by (simp add: P_def new_entry_def)
  have step: "\<And>(e::expense) en. P en \<Longrightarrow>
      P ((fold add_item (items e) en)
          \<lparr>total_amount := total_amount (fold add_item (items e) en) + sum_cost (items e)\<rparr>)"
    unfolding P_def by (rule count_step)
  have owed: "\<And>(en::report_entry) x. P en \<Longrightarrow> P (en\<lparr>owed_by := x\<rparr>)"
    and owes: "\<And>(en::report_entry) x. P en \<Longrightarrow> P (en\<lparr>owes_to := x\<rparr>)"
    by (simp_all add: P_def)
  have "\<forall>(k, en)\<in>set (report init_state). P en" by (simp add: init_state_def)
  from fold_process_expense_report [of P, OF new step this]
  have agg: "\<forall>(k, en)\<in>set (report (aggregate expenses)). P en"
    unfolding aggregate_def .
  then show "\<forall>(k, en)\<in>set (report (aggregate expenses)).
      total_items en = int (card (fst ` set (entry_items en)))"
    by (auto simp: P_def)
  {
    fix rs assume "weekly_report expenses = Inr rs"
    from weekly_report_entries [of P, OF owed owes agg this]
    show "\<forall>en\<in>set rs. total_items en = int (card (fst ` set (entry_items en)))"
      by (simp add: P_def)
  }
  assume "\<forall>(k, en)\<in>set (report st).
         total_items en = int (card (fst ` set (entry_items en)))
         \<and> distinct (map fst (entry_items en))"
  then have "\<forall>(k, en)\<in>set (report st). P en" by (simp add: P_def)
  from process_expense_report [of P, OF new step this]
  show "\<forall>(k, en)\<in>set (report (process_expense e st)).
         total_items en = int (card (fst ` set (entry_items en)))
         \<and> distinct (map fst (entry_items en))"
    by (simp add: P_def)
qed

theorem total_items_counts_item_names_witness:
  "\<exists>rs en. weekly_report busy_week = Inr rs \<and> en \<in> set rs \<and> name en = ''Cat''
     \<and> entry_items en = [(''fish'', 3), (''milk'', 1), (''eggs'', 6)]
     \<and> total_items en = int (card (fst ` set (entry_items en)))
     \<and> total_items en = 3"
proof -
  have r: "weekly_report busy_week = Inr
     [\<lparr>name = ''Ann'', total_amount = 3, total_items = 1, entry_items = [(''fish'', 3)],
         owed_by = [(''Bob'', 1), (''Cat'', 2)], owes_to = [(''Dan'', 1)]\<rparr>,
      \<lparr>name = ''Bob'', total_amount = 4, total_items = 2,
         entry_items = [(''fish'', 3), (''milk'', 1)], owed_by = [],
         owes_to = [(''Ann'', 1)]\<rparr>,
      \<lparr>name = ''Cat'', total_amount = 10, total_items = 3,
         entry_items = [(''fish'', 3), (''milk'', 1), (''eggs'', 6)], owed_by = [],
         owes_to = [(''Ann'', 2), (''Dan'', 2)]\<rparr>,
      \<lparr>name = ''Dan'', total_amount = 6, total_items = 1, entry_items = [(''eggs'', 6)],
         owed_by = [(''Ann'', 1), (''Cat'', 2)], owes_to = []\<rparr>]"
    by code_simp
  from total_items_counts_item_names [of busy_week init_state lunch] r
  show ?thesis by fastforce
qed

subsection \<open>The per-item breakdown of a report entry\<close>











subsection \<open>The sum of the balances\<close>

text \<open>
  What is spent in a week is consumed in that week: the values of \<open>spending\<close> and
  of \<open>consumption\<close> have the same sum when no group is empty.
\<close>

lemma sum_dict_add:
  "sum_list (map snd
     (dict_set (if \<not> dict_has d k then dict_set d k 0 else d) k
        (dict_get_or (if \<not> dict_has d k then dict_set d k 0 else d) k 0 + v)))
   = sum_list (map snd d) + (v::rat)"
  by (simp add: sum_dict_set dict_has_def dict_get_or_def map_of_dict_set
      map_of_eq_None_iff [symmetric] split: option.splits)

lemma consume_sums:
  "sum_list (map snd (consumption (consume e r st)))
     = sum_list (map snd (consumption st)) + sum_cost (items e) / of_nat (length (consumed_by e))"
  "spending (consume e r st) = spending st"
  by (simp_all add: consume_def Let_def sum_dict_add)

lemma fold_consume_sums:
  "sum_list (map snd (consumption (fold (consume e) rs st)))
     = sum_list (map snd (consumption st))
       + of_nat (length rs) * (sum_cost (items e) / of_nat (length (consumed_by e)))"
  "spending (fold (consume e) rs st) = spending st"
  by (induction rs arbitrary: st) (simp_all add: consume_sums algebra_simps add_divide_distrib)

lemma process_expense_sums:
  assumes "consumed_by e \<noteq> []"
  shows "sum_list (map snd (consumption (process_expense e st)))
     = sum_list (map snd (consumption st)) + sum_cost (items e)"
    and "sum_list (map snd (spending (process_expense e st)))
     = sum_list (map snd (spending st)) + sum_cost (items e)"
  using assms by (simp_all add: process_expense_def Let_def fold_consume_sums sum_dict_add)

lemma fold_process_expense_sums:
  "\<forall>e\<in>set es. consumed_by e \<noteq> [] \<Longrightarrow>
   sum_list (map snd (spending (fold process_expense es st)))
     - sum_list (map snd (consumption (fold process_expense es st)))
   = sum_list (map snd (spending st)) - sum_list (map snd (consumption st))"
  by (induction es arbitrary: st) (simp_all add: process_expense_sums)

lemma spending_equals_consumption:
  "\<forall>e\<in>set expenses. consumed_by e \<noteq> [] \<Longrightarrow>
   sum_list (map snd (spending (aggregate expenses)))
     = sum_list (map snd (consumption (aggregate expenses)))"
  using fold_process_expense_sums [of expenses init_state]
  by (simp add: aggregate_def init_state_def)

text \<open>
  C1, evaluated on the shared meal. The loop of lines 231-234 runs over the keys of
  \<open>spending\<close> only: Bob and Cat consumed 10 each and bought nothing, so they get no
  balance, the balances sum to 20, and nothing is settled.
\<close>

theorem shared_meal_net_sum:
  "balances (compute_balances (aggregate [shared_meal])) = [(''r1'', 20)]
   \<and> sum_list (map snd (balances (compute_balances (aggregate [shared_meal])))) = 20
   \<and> spending (aggregate [shared_meal]) = [(''r1'', 30)]
   \<and> consumption (aggregate [shared_meal]) = [(''r1'', 10), (''r2'', 10), (''r3'', 10)]
   \<and> map_sum id transfers (settle (compute_balances (aggregate [shared_meal]))) = Inr []"
  by code_simp

subsection \<open>Settlement of a ledger that does not balance\<close>

text \<open>
  C6 fails: nothing in the settlement compares credits with debits. The balances of
  the uneven week sum to 2; the settlement returns with one transfer, leaves Ann's
  balance at 2, and the report is served.
\<close>

theorem uneven_week_is_settled_partially:
  "balances (compute_balances (aggregate uneven_week)) = [(''r1'', 4), (''r2'', - 2)]
   \<and> map_sum id transfers (settle (compute_balances (aggregate uneven_week)))
     = Inr [\<lparr>creditor = ''r1'', debtor = ''r2'', paid = 2\<rparr>]
   \<and> map_sum id balances (settle (compute_balances (aggregate uneven_week)))
     = Inr [(''r1'', 2), (''r2'', 0)]
   \<and> map_sum id (map owed_by) (weekly_report uneven_week)
     = Inr [[(''Bob'', 2)], [], []]"
  by code_simp

text \<open>
  C6, amended: on every balance map whose persons all have an entry in the report,
  the settlement returns a state, whatever the sum of the balances.
\<close>

theorem settle_never_rejects:
  "fst ` set (balances st) \<subseteq> fst ` set (report st) \<Longrightarrow> \<exists>st'. settle st = Inr st'"
  unfolding settle_def by (rule outer_loop_succeeds) simp_all

theorem settle_never_rejects_witness:
  "sum_list (map snd (balances (compute_balances (aggregate uneven_week)))) = 2
   \<and> (\<exists>st'. settle (compute_balances (aggregate uneven_week)) = Inr st')"
proof -
  have "fst ` set (balances (compute_balances (aggregate uneven_week)))
      \<subseteq> fst ` set (report (compute_balances (aggregate uneven_week)))"
    by code_simp
  from settle_never_rejects [OF this]
  have "\<exists>st'. settle (compute_balances (aggregate uneven_week)) = Inr st'" .
  moreover have "sum_list (map snd (balances (compute_balances (aggregate uneven_week)))) = 2"
    by code_simp
  ultimately show ?thesis by simp
qed

text \<open>
  The one failure of the settlement is the missing key: an entry of the report is
  made for consumers only (line 208), so a creditor who consumed nothing has none.
\<close>

lemma treat_raises:
  "balances (compute_balances (aggregate treat)) = [(''r1'', 10), (''r2'', - 10)]
   \<and> map fst (report (aggregate treat)) = [''r2'']
   \<and> weekly_report treat = Inl KeyError"
  by code_simp

subsection \<open>Determinism of the settlement\<close>

text \<open>
  C8. Two runs of the settlement that start from the same balance map (the same
  pairs in the same order) and succeed produce the same sequence of transfers and the
  same final balances, whatever else the two states hold.
\<close>

theorem settle_deterministic:
  "balances st1 = balances st2 \<Longrightarrow> transfers st1 = transfers st2 \<Longrightarrow>
   settle st1 = Inr st1' \<Longrightarrow> settle st2 = Inr st2' \<Longrightarrow>
   transfers st1' = transfers st2' \<and> balances st1' = balances st2'"
  unfolding settle_def using outer_loop_same [of st1 st2 "map fst (balances st1)" st1' st2']
  by simp

theorem settle_deterministic_witness:
  "\<exists>st1' st2'.
     settle (compute_balances (aggregate busy_week)) = Inr st1'
     \<and> settle ((compute_balances (aggregate busy_week))
          \<lparr>report := [(''r1'', new_entry ''A''), (''r2'', new_entry ''B''),
                      (''r3'', new_entry ''C''), (''r4'', new_entry ''D'')]\<rparr>) = Inr st2'
     \<and> transfers st1' = transfers st2' \<and> balances st1' = balances st2'
     \<and> length (transfers st1') = 4"
proof -
  let ?s1 = "compute_balances (aggregate busy_week)"
  let ?s2 = "?s1\<lparr>report := [(''r1'', new_entry ''A''), (''r2'', new_entry ''B''),
                      (''r3'', new_entry ''C''), (''r4'', new_entry ''D'')]\<rparr>"
  have "map_sum id (length \<circ> transfers) (settle ?s1) = Inr 4" by code_simp
  then obtain st1' where a1: "settle ?s1 = Inr st1'" and n: "length (transfers st1') = 4"
    by (cases "settle ?s1") auto
  have "\<not> isl (settle ?s2)" by code_simp
  then obtain st2' where a2: "settle ?s2 = Inr st2'"
    by (cases "settle ?s2") auto
  have b: "balances ?s1 = balances ?s2" and t: "transfers ?s1 = transfers ?s2"
    by simp_all
  from settle_deterministic [OF b t a1 a2] a1 a2 n show ?thesis by blast
qed

subsection \<open>The amount of a transfer\<close>

text \<open>
  Line 240 takes the minimum with \<open>balance\<close>, the creditor's balance when the outer
  loop reached the creditor, and not with \<open>balances[roommate_id]\<close>, what remains of
  it. The three theorems below run the busy week, whose balances sum to zero.

  C2, evaluated on the busy week: the replay ends with every balance at zero, but the
  transfers sum to 6 and the positive balances to 5.
\<close>

theorem busy_week_transfer_total:
  "balances (compute_balances (aggregate busy_week))
     = [(''r1'', 2), (''r2'', - 1), (''r3'', - 4), (''r4'', 3)]
   \<and> map_sum id transfers (settle (compute_balances (aggregate busy_week)))
     = Inr [\<lparr>creditor = ''r1'', debtor = ''r2'', paid = 1\<rparr>,
            \<lparr>creditor = ''r1'', debtor = ''r3'', paid = 2\<rparr>,
            \<lparr>creditor = ''r4'', debtor = ''r1'', paid = 1\<rparr>,
            \<lparr>creditor = ''r4'', debtor = ''r3'', paid = 2\<rparr>]
   \<and> map_sum id balances (settle (compute_balances (aggregate busy_week)))
     = Inr [(''r1'', 0), (''r2'', 0), (''r3'', 0), (''r4'', 0)]
   \<and> map_sum id (sum_list \<circ> map paid \<circ> transfers)
        (settle (compute_balances (aggregate busy_week))) = Inr 6
   \<and> sum_list (filter ((<) 0) (map snd (balances (compute_balances (aggregate busy_week))))) = 5"
  by code_simp

text \<open>The same four transfers, as the report of the busy week shows them.\<close>

lemma busy_week_report:
  "map_sum id (map owed_by) (weekly_report busy_week)
     = Inr [[(''Bob'', 1), (''Cat'', 2)], [], [], [(''Ann'', 1), (''Cat'', 2)]]
   \<and> map_sum id (map owes_to) (weekly_report busy_week)
     = Inr [[(''Dan'', 1)], [(''Ann'', 1)], [(''Ann'', 2), (''Dan'', 2)], []]"
  by code_simp

text \<open>
  C3, evaluated on the busy week: after the first transfer Ann has 1 left and Cat
  owes 4, so the second transfer should be 1; it is 2.
\<close>

theorem busy_week_second_transfer:
  "map_sum id (take 2 \<circ> transfers) (settle (compute_balances (aggregate busy_week)))
     = Inr [\<lparr>creditor = ''r1'', debtor = ''r2'', paid = 1\<rparr>,
            \<lparr>creditor = ''r1'', debtor = ''r3'', paid = 2\<rparr>]
   \<and> replay [\<lparr>creditor = ''r1'', debtor = ''r2'', paid = 1\<rparr>]
        (balances (compute_balances (aggregate busy_week)))
     = [(''r1'', 1), (''r2'', 0), (''r3'', - 4), (''r4'', 3)]
   \<and> min (dict_get_or [(''r1'', 1), (''r2'', 0), (''r3'', - 4), (''r4'', 3)] ''r1'' 0)
         (- dict_get_or [(''r1'', 1), (''r2'', 0), (''r3'', - 4), (''r4'', 3)] ''r3'' 0)
     = (1 :: rat)"
  by code_simp

text \<open>
  C7, evaluated on the busy week: four balances are nonzero and four transfers are
  made, one more than the bound.
\<close>

theorem busy_week_transfer_count:
  "length (filter ((\<noteq>) 0) (map snd (balances (compute_balances (aggregate busy_week))))) = 4
   \<and> map_sum id (length \<circ> transfers) (settle (compute_balances (aggregate busy_week)))
     = Inr 4"
  by code_simp

end
